theory Spec2Isabelle
  imports Complex_Main
begin

section \<open>Sequential Bayesian updating on a grid\<close>

text \<open>
  The notebook \<^verbatim>\<open>10_bayes/prior_posterior_distribution_example.ipynb\<close> is a linear
  script over one-dimensional float arrays.  Its steps are embedded here as functions
  of the arrays they read.  A float64 is modelled by an exact \<^typ>\<open>real\<close>; an array
  is a list.  Two things numpy does that a real cannot express are values of the
  result type below: an exception raised by the library, and an array or scalar that
  holds \<^verbatim>\<open>inf\<close> or \<^verbatim>\<open>nan\<close> (numpy prints a RuntimeWarning and goes on; every later
  product, integral and quotient of such an array is non-finite again).
\<close>

datatype failure =
    ValueError    \<comment> \<open>operands could not be broadcast together\<close>
  | IndexError    \<comment> \<open>index out of bounds\<close>
  | NonFinite     \<comment> \<open>the float result holds inf or nan\<close>

subsection \<open>Array primitives\<close>

text \<open>
  \<^verbatim>\<open>a * b\<close> on one-dimensional arrays: elementwise for equal lengths, an array of
  length one is broadcast, any other pair of lengths raises.
\<close>

definition np_mul :: "real list \<Rightarrow> real list \<Rightarrow> failure + real list" where
  "np_mul xs ys =
     (if length xs = length ys then Inr (map2 (*) xs ys)
      else if length xs = 1 then Inr (map (\<lambda>y. hd xs * y) ys)
      else if length ys = 1 then Inr (map (\<lambda>x. x * hd ys) xs)
      else Inl ValueError)"

text \<open>\<^verbatim>\<open>np.diff(x)\<close> is \<^verbatim>\<open>x[1:] - x[:-1]\<close>.\<close>

definition np_diff :: "real list \<Rightarrow> real list" where
  "np_diff x = map2 (-) (tl x) (butlast x)"

text \<open>
  \<^verbatim>\<open>np.trapezoid(y, x)\<close> computes \<^verbatim>\<open>(diff(x) * (y[1:] + y[:-1]) / 2.0).sum()\<close>.
\<close>

definition trapezoid :: "real list \<Rightarrow> real list \<Rightarrow> failure + real" where
  "trapezoid y x =
     (case np_mul (np_diff x) (map2 (+) (tl y) (butlast y)) of
        Inl e \<Rightarrow> Inl e
      | Inr p \<Rightarrow> Inr (sum_list (map (\<lambda>v. v / 2) p)))"

text \<open>\<^verbatim>\<open>np.cumsum\<close>: the running sums, one per element.\<close>

fun cumsum_from :: "real \<Rightarrow> real list \<Rightarrow> real list" where
  "cumsum_from acc [] = []"
| "cumsum_from acc (v # vs) = (acc + v) # cumsum_from (acc + v) vs"

definition cumsum :: "real list \<Rightarrow> real list" where
  "cumsum vs = cumsum_from 0 vs"

text \<open>
  \<^verbatim>\<open>np.searchsorted(a, v)\<close> with the default \<^verbatim>\<open>side='left'\<close> is a binary search
  between \<open>0\<close> and \<open>len(a)\<close>: the middle element is compared with the key, and the
  lower bound moves past it when it is smaller.
\<close>

function bisect_left :: "real list \<Rightarrow> real \<Rightarrow> nat \<Rightarrow> nat \<Rightarrow> nat" where
  "bisect_left a v lo hi =
     (if lo < hi then
        (let mid = lo + (hi - lo) div 2
         in if a ! mid < v then bisect_left a v (mid + 1) hi
            else bisect_left a v lo mid)
      else lo)"
  by pat_completeness auto
termination
  by (relation "measure (\<lambda>(a, v, lo, hi). hi - lo)") auto

declare bisect_left.simps [simp del]

definition searchsorted :: "real list \<Rightarrow> real \<Rightarrow> nat" where
  "searchsorted a v = bisect_left a v 0 (length a)"

subsection \<open>Normalisation and the update step\<close>

text \<open>
  Line 191, \<^verbatim>\<open>posterior_1 /= np.trapezoid(posterior_1, ecs_values)\<close>: every element is
  divided by the integral.  There is no check of the integral; a zero integral makes
  every element of a non-empty array \<^verbatim>\<open>inf\<close> or \<^verbatim>\<open>nan\<close>.
\<close>

definition normalize_density :: "real list \<Rightarrow> real list \<Rightarrow> failure + real list" where
  "normalize_density density grid =
     (case trapezoid density grid of
        Inl e \<Rightarrow> Inl e
      | Inr area \<Rightarrow>
          if area = 0 \<and> density \<noteq> [] then Inl NonFinite
          else Inr (map (\<lambda>v. v / area) density))"

text \<open>
  Lines 190-191, repeated at 208-209, 212-213 and 216-217: the current density times
  the likelihood, then normalised.
\<close>

definition update :: "real list \<Rightarrow> real list \<Rightarrow> real list \<Rightarrow> failure + real list" where
  "update current likelihood grid =
     (case np_mul current likelihood of
        Inl e \<Rightarrow> Inl e
      | Inr product \<Rightarrow> normalize_density product grid)"

text \<open>
  Lines 189-217 apply the update four times, each to the posterior before it, the
  first to \<^verbatim>\<open>prior_pdf\<close> as it stands.  \<open>run\<close> is that recurrence over a list of
  likelihoods; it collects \<^verbatim>\<open>posterior_1\<close>, \<^verbatim>\<open>posterior_2\<close>, ... in order.
\<close>

fun run :: "real list \<Rightarrow> real list list \<Rightarrow> real list \<Rightarrow> failure + real list list" where
  "run prior [] grid = Inr []"
| "run prior (l # ls) grid =
     (case update prior l grid of
        Inl e \<Rightarrow> Inl e
      | Inr posterior \<Rightarrow>
          (case run posterior ls grid of
             Inl e \<Rightarrow> Inl e
           | Inr rest \<Rightarrow> Inr (posterior # rest)))"

text \<open>The four posteriors of the notebook, named as there.\<close>

definition posterior_1 :: "real list \<Rightarrow> real list \<Rightarrow> real list \<Rightarrow> failure + real list" where
  "posterior_1 prior_pdf volcanic_pdf ecs_values = update prior_pdf volcanic_pdf ecs_values"

definition posterior_2 ::
  "real list \<Rightarrow> real list \<Rightarrow> real list \<Rightarrow> real list \<Rightarrow> failure + real list" where
  "posterior_2 prior_pdf volcanic_pdf lgm_pdf ecs_values =
     (case posterior_1 prior_pdf volcanic_pdf ecs_values of
        Inl e \<Rightarrow> Inl e
      | Inr p1 \<Rightarrow> update p1 lgm_pdf ecs_values)"

definition posterior_3 ::
  "real list \<Rightarrow> real list \<Rightarrow> real list \<Rightarrow> real list \<Rightarrow> real list \<Rightarrow> failure + real list" where
  "posterior_3 prior_pdf volcanic_pdf lgm_pdf ensemble_pdf ecs_values =
     (case posterior_2 prior_pdf volcanic_pdf lgm_pdf ecs_values of
        Inl e \<Rightarrow> Inl e
      | Inr p2 \<Rightarrow> update p2 ensemble_pdf ecs_values)"

definition final_posterior ::
  "real list \<Rightarrow> real list \<Rightarrow> real list \<Rightarrow> real list \<Rightarrow> real list \<Rightarrow> real list
     \<Rightarrow> failure + real list" where
  "final_posterior prior_pdf volcanic_pdf lgm_pdf ensemble_pdf maunder_pdf ecs_values =
     (case posterior_3 prior_pdf volcanic_pdf lgm_pdf ensemble_pdf ecs_values of
        Inl e \<Rightarrow> Inl e
      | Inr p3 \<Rightarrow> update p3 maunder_pdf ecs_values)"


subsection \<open>Summary statistics\<close>

text \<open>
  \<^verbatim>\<open>np.diff(ecs_values).mean()\<close>: the mean of an empty array is \<^verbatim>\<open>nan\<close>, here
  \<open>None\<close>.
\<close>

definition average_spacing :: "real list \<Rightarrow> real option" where
  "average_spacing grid =
     (let d = np_diff grid
      in if d = [] then None else Some (sum_list d / real (length d)))"

text \<open>
  Line 261, \<^verbatim>\<open>cumulative = np.cumsum(final_posterior) * np.diff(ecs_values).mean()\<close>.
  With a \<^verbatim>\<open>nan\<close> spacing every element is \<^verbatim>\<open>nan\<close>.
\<close>

definition cumulative :: "real list \<Rightarrow> real list \<Rightarrow> real list option" where
  "cumulative density grid =
     (case average_spacing grid of
        None \<Rightarrow> None
      | Some dx \<Rightarrow> Some (map (\<lambda>c. c * dx) (cumsum density)))"

text \<open>
  Lines 262, 265, 266: \<^verbatim>\<open>np.searchsorted(cumulative, q)\<close>.  No \<^verbatim>\<open>nan\<close> compares
  below the key, so on an all-\<^verbatim>\<open>nan\<close> array the search ends at index 0.
\<close>

definition first_crossing :: "real list \<Rightarrow> real list \<Rightarrow> real \<Rightarrow> nat" where
  "first_crossing density grid q =
     (case cumulative density grid of
        None \<Rightarrow> 0
      | Some cs \<Rightarrow> searchsorted cs q)"

text \<open>
  \<^verbatim>\<open>ecs_values[np.searchsorted(cumulative, q)]\<close>: the index is never negative, and an
  index that is not below the length raises IndexError.
\<close>

definition quantile :: "real list \<Rightarrow> real list \<Rightarrow> real \<Rightarrow> failure + real" where
  "quantile density grid q =
     (let i = first_crossing density grid q
      in if i < length grid then Inr (grid ! i) else Inl IndexError)"

definition median :: "real list \<Rightarrow> real list \<Rightarrow> failure + real" where
  "median density grid = quantile density grid (1 / 2)"

text \<open>Lines 265-266: the lower quantile is looked up first, then the upper one.\<close>

definition credibleInterval ::
  "real list \<Rightarrow> real list \<Rightarrow> real \<Rightarrow> real \<Rightarrow> failure + real \<times> real" where
  "credibleInterval density grid lowerTail upperTail =
     (case quantile density grid lowerTail of
        Inl e \<Rightarrow> Inl e
      | Inr lower \<Rightarrow>
          (case quantile density grid upperTail of
             Inl e \<Rightarrow> Inl e
           | Inr upper \<Rightarrow> Inr (lower, upper)))"

text \<open>
  Lines 285-286, with the threshold \<^verbatim>\<open>4.5\<close> as a parameter: the index of the
  threshold in the grid, and the integral of the density from that index on.
\<close>

definition threshold_index :: "real list \<Rightarrow> real \<Rightarrow> nat" where
  "threshold_index grid threshold = searchsorted grid threshold"

definition probability_gt :: "real list \<Rightarrow> real list \<Rightarrow> real \<Rightarrow> failure + real" where
  "probability_gt density grid threshold =
     (let i = threshold_index grid threshold
      in trapezoid (drop i density) (drop i grid))"

text \<open>
  The notebook calls \<^verbatim>\<open>warnings.warn\<close> nowhere.  \<open>tailProbability\<close> pairs the
  value of lines 285-286 with the warnings the cell signals, which are none.
\<close>

datatype warning = ThresholdOutOfRangeWarning

definition tailProbability ::
  "real list \<Rightarrow> real list \<Rightarrow> real \<Rightarrow> (failure + real) \<times> warning list" where
  "tailProbability density grid threshold = (probability_gt density grid threshold, [])"


section \<open>Properties\<close>

subsection \<open>Scaling a density\<close>









subsection \<open>Normalisation, update and the chain of posteriors\<close>










subsection \<open>Non-negative densities\<close>

lemma np_diff_nonneg:
  assumes "sorted x"
  shows "\<forall>d\<in>set (np_diff x). 0 \<le> d"
proof
  fix d assume "d \<in> set (np_diff x)"
  then obtain b a where ba: "(b, a) \<in> set (zip (tl x) (butlast x))" and d: "d = b - a"
    by (auto simp: np_diff_def)
  from ba obtain n where n: "n < length (tl x)" "n < length (butlast x)"
      and b: "b = tl x ! n" and a: "a = butlast x ! n"
    by (auto simp: in_set_zip)
  from n have "Suc n < length x" by simp
  with assms have "x ! n \<le> x ! Suc n"
    by (simp add: sorted_iff_nth_mono)
  with n a b d show "0 \<le> d"
    by (simp add: nth_tl nth_butlast)
qed







subsection \<open>Claims about normalisation and the update\<close>








subsection \<open>Claims about the chain of posteriors\<close>

lemma run_unrolled:
  "run prior_pdf [volcanic_pdf, lgm_pdf, ensemble_pdf, maunder_pdf] ecs_values = Inr [p1, p2, p3, p4]
   \<longleftrightarrow> posterior_1 prior_pdf volcanic_pdf ecs_values = Inr p1
     \<and> posterior_2 prior_pdf volcanic_pdf lgm_pdf ecs_values = Inr p2
     \<and> posterior_3 prior_pdf volcanic_pdf lgm_pdf ensemble_pdf ecs_values = Inr p3
     \<and> final_posterior prior_pdf volcanic_pdf lgm_pdf ensemble_pdf maunder_pdf ecs_values = Inr p4"
  by (auto simp: posterior_1_def posterior_2_def posterior_3_def final_posterior_def
      split: sum.splits)









subsection \<open>Binary search\<close>

lemma bisect_left_all_less:
  "lo \<le> hi \<Longrightarrow> (\<forall>i. lo \<le> i \<and> i < hi \<longrightarrow> a ! i < v) \<Longrightarrow> bisect_left a v lo hi = hi"
proof (induction a v lo hi rule: bisect_left.induct)
  case (1 a v lo hi)
  show ?case
  proof (cases "lo < hi")
    case True
    define mid where "mid = lo + (hi - lo) div 2"
    from True have bounds: "lo \<le> mid" "mid < hi" by (simp_all add: mid_def)
    with "1.prems" have less: "a ! mid < v" by simp
    have "bisect_left a v (mid + 1) hi = hi"
      using "1.IH"(1) [OF True mid_def less] bounds "1.prems" by simp
    with True less show ?thesis
      by (subst bisect_left.simps) (simp add: mid_def Let_def)
  next
    case False
    with "1.prems" show ?thesis
      by (subst bisect_left.simps) simp
  qed
qed

lemma bisect_left_none_less:
  "(\<forall>i. lo \<le> i \<and> i < hi \<longrightarrow> \<not> a ! i < v) \<Longrightarrow> bisect_left a v lo hi = lo"
proof (induction a v lo hi rule: bisect_left.induct)
  case (1 a v lo hi)
  show ?case
  proof (cases "lo < hi")
    case True
    define mid where "mid = lo + (hi - lo) div 2"
    from True have bounds: "lo \<le> mid" "mid < hi" by (simp_all add: mid_def)
    with "1.prems" have ge: "\<not> a ! mid < v" by simp
    have "bisect_left a v lo mid = lo"
      using "1.IH"(2) [OF True mid_def ge] bounds "1.prems" by simp
    with True ge show ?thesis
      by (subst bisect_left.simps) (simp add: mid_def Let_def)
  next
    case False
    then show ?thesis
      by (subst bisect_left.simps) simp
  qed
qed

lemma bisect_left_sorted:
  "sorted a \<Longrightarrow> lo \<le> length (takeWhile (\<lambda>x. x < v) a) \<Longrightarrow> length (takeWhile (\<lambda>x. x < v) a) \<le> hi
     \<Longrightarrow> hi \<le> length a \<Longrightarrow> bisect_left a v lo hi = length (takeWhile (\<lambda>x. x < v) a)"
proof (induction a v lo hi rule: bisect_left.induct)
  case (1 a v lo hi)
  note srt = "1.prems"(1)
  define k where "k = length (takeWhile (\<lambda>x. x < v) a)"
  have below: "a ! i < v" if "i < k" for i
  proof -
    from that have "takeWhile (\<lambda>x. x < v) a ! i \<in> set (takeWhile (\<lambda>x. x < v) a)"
      by (simp add: k_def)
    then have "takeWhile (\<lambda>x. x < v) a ! i < v"
      by (auto dest: set_takeWhileD)
    with that show ?thesis by (simp add: k_def takeWhile_nth)
  qed
  have above: "\<not> a ! i < v" if "k \<le> i" "i < length a" for i
  proof -
    from that have "k < length a" by simp
    then have "\<not> a ! k < v"
      unfolding k_def by (rule nth_length_takeWhile)
    moreover from srt that have "a ! k \<le> a ! i"
      by (simp add: sorted_iff_nth_mono)
    ultimately show ?thesis by simp
  qed
  show ?case
  proof (cases "lo < hi")
    case True
    define mid where "mid = lo + (hi - lo) div 2"
    from True have bounds: "lo \<le> mid" "mid < hi" by (simp_all add: mid_def)
    show ?thesis
    proof (cases "a ! mid < v")
      case less: True
      have "mid < k"
      proof (rule ccontr)
        assume "\<not> mid < k"
        with bounds "1.prems" have "\<not> a ! mid < v"
          by (intro above) simp_all
        with less show False by simp
      qed
      with "1.IH"(1) [OF True mid_def less] "1.prems" srt
      have "bisect_left a v (mid + 1) hi = k"
        by (simp add: k_def)
      with True less show ?thesis
        by (subst bisect_left.simps) (simp add: mid_def Let_def k_def)
    next
      case ge: False
      have "k \<le> mid"
      proof (rule ccontr)
        assume "\<not> k \<le> mid"
        then have "a ! mid < v" by (intro below) simp
        with ge show False by simp
      qed
      with "1.IH"(2) [OF True mid_def ge] "1.prems" bounds srt
      have "bisect_left a v lo mid = k"
        by (simp add: k_def)
      with True ge show ?thesis
        by (subst bisect_left.simps) (simp add: mid_def Let_def k_def)
    qed
  next
    case False
    with "1.prems" show ?thesis
      by (subst bisect_left.simps) simp
  qed
qed

lemma searchsorted_sorted:
  "sorted a \<Longrightarrow> searchsorted a v = length (takeWhile (\<lambda>x. x < v) a)"
  unfolding searchsorted_def
  by (rule bisect_left_sorted) (simp_all add: length_takeWhile_le)

lemma searchsorted_all_less:
  "\<forall>x\<in>set a. x < v \<Longrightarrow> searchsorted a v = length a"
  unfolding searchsorted_def by (rule bisect_left_all_less) simp_all

lemma searchsorted_none_less:
  "\<forall>x\<in>set a. \<not> x < v \<Longrightarrow> searchsorted a v = 0"
  unfolding searchsorted_def by (rule bisect_left_none_less) simp

subsection \<open>Cumulative sums\<close>

lemma length_cumsum_from: "length (cumsum_from acc vs) = length vs"
  by (induction vs arbitrary: acc) simp_all

lemma cumsum_from_lower:
  "\<forall>v\<in>set vs. 0 \<le> v \<Longrightarrow> \<forall>c\<in>set (cumsum_from acc vs). acc \<le> c"
proof (induction vs arbitrary: acc)
  case Nil
  then show ?case by simp
next
  case (Cons v vs)
  then have "\<forall>c\<in>set (cumsum_from (acc + v) vs). acc + v \<le> c" by simp
  with Cons.prems show ?case by fastforce
qed

lemma sorted_cumsum_from:
  "\<forall>v\<in>set vs. 0 \<le> v \<Longrightarrow> sorted (cumsum_from acc vs)"
proof (induction vs arbitrary: acc)
  case Nil
  then show ?case by simp
next
  case (Cons v vs)
  from Cons.prems have "\<forall>c\<in>set (cumsum_from (acc + v) vs). acc + v \<le> c"
    by (intro cumsum_from_lower) simp
  with Cons show ?case by simp
qed

lemma average_spacing_nonneg:
  assumes "average_spacing G = Some dx" and "sorted G"
  shows "0 \<le> dx"
proof -
  from assms(1) have dx: "dx = sum_list (np_diff G) / real (length (np_diff G))"
    by (simp add: average_spacing_def Let_def split: if_splits)
  have "0 \<le> sum_list (np_diff G)"
    using np_diff_nonneg [OF assms(2)] by (intro sum_list_nonneg) simp
  then show ?thesis unfolding dx by simp
qed

lemma cumulative_props:
  assumes "cumulative D G = Some cs" and "sorted G" and "\<forall>v\<in>set D. 0 \<le> v"
  shows "sorted cs" and "\<forall>c\<in>set cs. 0 \<le> c" and "length cs = length D"
proof -
  from assms(1) obtain dx where dx: "average_spacing G = Some dx"
    and cs: "cs = map (\<lambda>c. c * dx) (cumsum D)"
    by (auto simp: cumulative_def split: option.splits)
  from dx assms(2) have nn: "0 \<le> dx" by (rule average_spacing_nonneg)
  have "sorted (cumsum D)"
    unfolding cumsum_def using assms(3) by (rule sorted_cumsum_from)
  then show "sorted cs"
    unfolding cs sorted_map
    by (rule sorted_wrt_mono_rel [rotated]) (simp add: nn mult_right_mono)
  have "\<forall>c\<in>set (cumsum D). 0 \<le> c"
    unfolding cumsum_def using assms(3) by (rule cumsum_from_lower)
  with nn show "\<forall>c\<in>set cs. 0 \<le> c" by (simp add: cs)
  show "length cs = length D"
    by (simp add: cs cumsum_def length_cumsum_from)
qed

lemma length_cumulative:
  "cumulative D G = Some cs \<Longrightarrow> length cs = length D"
  by (auto simp: cumulative_def cumsum_def length_cumsum_from split: option.splits)

lemma Min_sorted: "sorted G \<Longrightarrow> G \<noteq> [] \<Longrightarrow> Min (set G) = hd (G :: real list)"
  by (cases G) (auto intro: Min_eqI)

lemma trapezoid_empty: "trapezoid [] [] = Inr 0"
  by (simp add: trapezoid_def np_mul_def np_diff_def)

subsection \<open>Claims about the summary statistics\<close>

text \<open>
  Claim C7, amended.  For a non-negative density on a non-decreasing grid of at least
  two points, the credible interval with tails 0 and 1 has the minimum of the grid as
  its lower end.  Its upper end is the grid point at the first index where the scaled
  cumulative sum reaches 1; that index can come before the last grid point, and when
  the cumulative sum never reaches 1 the lookup fails with an index error.  So the
  upper end is not the maximum of the grid in general: a uniform density on three
  points reaches 1 at the middle point.
\<close>
theorem credibleInterval_full_range:
  assumes "\<forall>v\<in>set D. 0 \<le> v" and "sorted G" and "G \<noteq> []"
    and "cumulative D G = Some cs"
  shows "credibleInterval D G 0 1 =
     (let k = length (takeWhile (\<lambda>c. c < 1) cs)
      in if k < length G then Inr (Min (set G), G ! k) else Inl IndexError)"
proof -
  note props = cumulative_props [OF assms(4,2,1)]
  from props(2) have "searchsorted cs 0 = 0"
    by (intro searchsorted_none_less) (simp add: not_less)
  with assms(3,4) have lower: "quantile D G 0 = Inr (hd G)"
    by (simp add: quantile_def first_crossing_def hd_conv_nth)
  from props(1) have "searchsorted cs 1 = length (takeWhile (\<lambda>c. c < 1) cs)"
    by (rule searchsorted_sorted)
  with assms(4) have upper: "quantile D G 1 =
     (let k = length (takeWhile (\<lambda>c. c < 1) cs)
      in if k < length G then Inr (G ! k) else Inl IndexError)"
    by (simp add: quantile_def first_crossing_def)
  show ?thesis
    unfolding credibleInterval_def lower upper
    by (simp add: Let_def Min_sorted [OF assms(2,3)])
qed

theorem credibleInterval_full_range_witness:
  "sorted [0, 1 / 2, 1 :: real] \<and> [0, 1 / 2, 1 :: real] \<noteq> []
   \<and> cumulative [1, 1, 1] [0, 1 / 2, 1] = Some [1 / 2, 1, 3 / 2]
   \<and> credibleInterval [1, 1, 1] [0, 1 / 2, 1] 0 1 = Inr (0, 1 / 2)"
proof -
  have d: "\<forall>v\<in>set [1, 1, 1 :: real]. 0 \<le> v" by simp
  have g: "sorted [0, 1 / 2, 1 :: real]" by simp
  have ne: "[0, 1 / 2, 1 :: real] \<noteq> []" by simp
  have c: "cumulative [1, 1, 1] [0, 1 / 2, 1] = Some [1 / 2, 1, 3 / 2]"
    by (simp add: cumulative_def average_spacing_def np_diff_def cumsum_def)
  from credibleInterval_full_range [OF d g ne c]
  have "credibleInterval [1, 1, 1] [0, 1 / 2, 1] 0 1 = Inr (0, 1 / 2)" by simp
  with g ne c show ?thesis by (intro conjI)
qed

theorem credibleInterval_upper_counterexample:
  "trapezoid [1, 1, 1] [0, 1 / 2, 1] = Inr 1
   \<and> credibleInterval [1, 1, 1] [0, 1 / 2, 1] 0 1 = Inr (0, 1 / 2)
   \<and> Max (set [0, 1 / 2, 1 :: real]) = 1
   \<and> credibleInterval [1, 1, 1] [0, 1 / 2, 1] 0 1
       \<noteq> Inr (Min (set [0, 1 / 2, 1]), Max (set [0, 1 / 2, 1]))"
proof -
  have c: "cumulative [1, 1, 1] [0, 1 / 2, 1] = Some [1 / 2, 1, 3 / 2]"
    by (simp add: cumulative_def average_spacing_def np_diff_def cumsum_def)
  have lo: "searchsorted [1 / 2, 1, 3 / 2] 0 = 0"
    by (subst searchsorted_sorted) simp_all
  have hi: "searchsorted [1 / 2, 1, 3 / 2] 1 = 1"
    by (subst searchsorted_sorted) simp_all
  have t: "trapezoid [1, 1, 1] [0, 1 / 2, 1] = Inr 1"
    by (simp add: trapezoid_def np_mul_def np_diff_def)
  have r: "credibleInterval [1, 1, 1] [0, 1 / 2, 1] 0 1 = Inr (0, 1 / 2)"
    by (simp add: credibleInterval_def quantile_def first_crossing_def c lo hi)
  from t r show ?thesis by simp
qed

text \<open>
  Claim C9.  When every element of the scaled cumulative sum is below the level \<open>q\<close>,
  the first-crossing index is the length of the grid, and the lookup of the quantile
  fails with an index error instead of returning the last grid point; so do the median
  for \<open>q = 1/2\<close> and the credible interval with \<open>q\<close> as its upper tail.
\<close>
theorem quantile_never_reached:
  assumes "cumulative D G = Some cs" and "\<forall>c\<in>set cs. c < q" and "length D = length G"
  shows "first_crossing D G q = length G \<and> quantile D G q = Inl IndexError
    \<and> (q = 1 / 2 \<longrightarrow> median D G = Inl IndexError)
    \<and> credibleInterval D G lowerTail q = Inl IndexError"
proof -
  from assms(2) have "searchsorted cs q = length cs"
    by (rule searchsorted_all_less)
  with assms(1,3) have fc: "first_crossing D G q = length G"
    by (simp add: first_crossing_def length_cumulative)
  then have qu: "quantile D G q = Inl IndexError"
    by (simp add: quantile_def)
  have "credibleInterval D G lowerTail q = Inl IndexError"
    unfolding credibleInterval_def qu
    by (cases "quantile D G lowerTail") (auto simp: quantile_def Let_def split: if_splits)
  moreover have "q = 1 / 2 \<longrightarrow> median D G = Inl IndexError"
  proof
    assume half: "q = 1 / 2"
    show "median D G = Inl IndexError"
      unfolding median_def half [symmetric] by (rule qu)
  qed
  ultimately show ?thesis using fc qu by (intro conjI)
qed

theorem quantile_never_reached_witness:
  "cumulative [1 / 10, 1 / 10, 1 / 10] [0, 1, 2] = Some [1 / 10, 2 / 10, 3 / 10]
   \<and> length [1 / 10, 1 / 10, 1 / 10 :: real] = length [0, 1, 2 :: real]
   \<and> first_crossing [1 / 10, 1 / 10, 1 / 10] [0, 1, 2] (1 / 2) = 3
   \<and> quantile [1 / 10, 1 / 10, 1 / 10] [0, 1, 2] (1 / 2) = Inl IndexError
   \<and> median [1 / 10, 1 / 10, 1 / 10] [0, 1, 2] = Inl IndexError
   \<and> credibleInterval [1 / 10, 1 / 10, 1 / 10] [0, 1, 2] 0 (1 / 2) = Inl IndexError"
proof -
  have c: "cumulative [1 / 10, 1 / 10, 1 / 10] [0, 1, 2] = Some [1 / 10, 2 / 10, 3 / 10]"
    by (simp add: cumulative_def average_spacing_def np_diff_def cumsum_def)
  have b: "\<forall>c\<in>set [1 / 10, 2 / 10, 3 / 10 :: real]. c < 1 / 2" by simp
  have l: "length [1 / 10, 1 / 10, 1 / 10 :: real] = length [0, 1, 2 :: real]" by simp
  from quantile_never_reached [OF c b l, of 0] c l show ?thesis by simp
qed

text \<open>
  Claim C6, amended.  For a normalised density, the tail probability above a threshold
  below every grid point is 1, and above a threshold beyond every grid point it is 0.
  No warning is signalled in either case: the code has none.
\<close>
theorem tailProbability_outside_grid:
  assumes "length D = length G" and "trapezoid D G = Inr 1"
  shows "((\<forall>g\<in>set G. t < g) \<longrightarrow> tailProbability D G t = (Inr 1, []))
    \<and> ((\<forall>g\<in>set G. g < t) \<longrightarrow> tailProbability D G t = (Inr 0, []))"
proof (intro conjI impI)
  assume "\<forall>g\<in>set G. t < g"
  then have "searchsorted G t = 0"
    by (intro searchsorted_none_less) auto
  with assms(2) show "tailProbability D G t = (Inr 1, [])"
    by (simp add: tailProbability_def probability_gt_def threshold_index_def)
next
  assume "\<forall>g\<in>set G. g < t"
  then have "searchsorted G t = length G"
    by (rule searchsorted_all_less)
  with assms(1) show "tailProbability D G t = (Inr 0, [])"
    by (simp add: tailProbability_def probability_gt_def threshold_index_def trapezoid_empty)
qed

theorem tailProbability_outside_grid_witness:
  "length [1, 1 :: real] = length [0, 1 :: real] \<and> trapezoid [1, 1] [0, 1] = Inr 1
   \<and> tailProbability [1, 1] [0, 1] (- 1) = (Inr 1, [])
   \<and> tailProbability [1, 1] [0, 1] 2 = (Inr 0, [])"
proof -
  have l: "length [1, 1 :: real] = length [0, 1 :: real]" by simp
  have t: "trapezoid [1, 1] [0, 1] = Inr 1"
    by (simp add: trapezoid_def np_mul_def np_diff_def)
  have lo: "\<forall>g\<in>set [0, 1 :: real]. - 1 < g" by simp
  have hi: "\<forall>g\<in>set [0, 1 :: real]. g < 2" by simp
  from tailProbability_outside_grid [OF l t, of "- 1"] lo
  have below: "tailProbability [1, 1] [0, 1] (- 1) = (Inr 1, [])" by blast
  from tailProbability_outside_grid [OF l t, of 2] hi
  have above: "tailProbability [1, 1] [0, 1] 2 = (Inr 0, [])" by blast
  from l t below above show ?thesis by (intro conjI)
qed

theorem tailProbability_no_warning_counterexample:
  "snd (tailProbability [1, 1] [0, 1] (- 1)) = []
   \<and> ThresholdOutOfRangeWarning \<notin> set (snd (tailProbability [1, 1] [0, 1] (- 1)))
   \<and> snd (tailProbability [1, 1] [0, 1] 2) = []
   \<and> ThresholdOutOfRangeWarning \<notin> set (snd (tailProbability [1, 1] [0, 1] 2))"
  by (simp add: tailProbability_def)

text \<open>
  Claim C10.  On a non-decreasing grid the tail probability is the trapezoidal
  integral over the sub-grid that starts at the first grid point not below the
  threshold: the points before it are below the threshold, those from it on are not.
  Hence a threshold strictly between two neighbouring grid points gives the same value
  as the upper of the two: the mass between the threshold and that point is left out.
\<close>
theorem tailProbability_from_first_grid_point:
  assumes "sorted G"
  shows "threshold_index G t = length (takeWhile (\<lambda>g. g < t) G)
    \<and> fst (tailProbability D G t)
        = trapezoid (drop (threshold_index G t) D) (drop (threshold_index G t) G)
    \<and> (\<forall>g\<in>set (take (threshold_index G t) G). g < t)
    \<and> (\<forall>g\<in>set (drop (threshold_index G t) G). t \<le> g)
    \<and> (\<forall>i. Suc i < length G \<and> G ! i < t \<and> t \<le> G ! Suc i \<longrightarrow>
          threshold_index G t = Suc i
          \<and> fst (tailProbability D G t) = fst (tailProbability D G (G ! Suc i)))"
proof -
  let ?k = "length (takeWhile (\<lambda>g. g < t) G)"
  have k: "threshold_index G t = ?k"
    unfolding threshold_index_def using assms by (rule searchsorted_sorted)
  have integral: "fst (tailProbability D G t)
        = trapezoid (drop (threshold_index G t) D) (drop (threshold_index G t) G)"
    by (simp add: tailProbability_def probability_gt_def Let_def)
  have before: "\<forall>g\<in>set (take (threshold_index G t) G). g < t"
    unfolding k takeWhile_eq_take [symmetric] by (auto dest: set_takeWhileD)
  have after: "\<forall>g\<in>set (drop (threshold_index G t) G). t \<le> g"
  proof
    fix g assume g: "g \<in> set (drop (threshold_index G t) G)"
    then have ne: "dropWhile (\<lambda>g. g < t) G \<noteq> []" and mem: "g \<in> set (dropWhile (\<lambda>g. g < t) G)"
      unfolding k by (auto simp: dropWhile_eq_drop)
    from ne have "\<not> hd (dropWhile (\<lambda>g. g < t) G) < t" by (rule hd_dropWhile)
    moreover have "sorted (dropWhile (\<lambda>g. g < t) G)"
      using assms by (rule sorted_dropWhile)
    with ne mem have "hd (dropWhile (\<lambda>g. g < t) G) \<le> g"
      by (cases "dropWhile (\<lambda>g. g < t) G") auto
    ultimately show "t \<le> g" by simp
  qed
  have between: "threshold_index G u = Suc i"
    if "Suc i < length G" "G ! i < u" "u \<le> G ! Suc i" for i u
  proof -
    have "takeWhile (\<lambda>g. g < u) G = take (Suc i) G"
    proof (rule takeWhile_eq_take_P_nth)
      fix j assume "j < Suc i" "j < length G"
      with assms that(1) have "G ! j \<le> G ! i"
        by (simp add: sorted_iff_nth_mono)
      with that(2) show "G ! j < u" by simp
    next
      from that(3) show "\<not> G ! Suc i < u" by simp
    qed
    with that(1) have "length (takeWhile (\<lambda>g. g < u) G) = Suc i" by simp
    then show ?thesis
      unfolding threshold_index_def searchsorted_sorted [OF assms] .
  qed
  have gap: "\<forall>i. Suc i < length G \<and> G ! i < t \<and> t \<le> G ! Suc i \<longrightarrow>
          threshold_index G t = Suc i
          \<and> fst (tailProbability D G t) = fst (tailProbability D G (G ! Suc i))"
  proof (intro allI impI)
    fix i assume h: "Suc i < length G \<and> G ! i < t \<and> t \<le> G ! Suc i"
    then have "G ! i < G ! Suc i" by simp
    with h have "threshold_index G (G ! Suc i) = Suc i"
      by (intro between) simp_all
    moreover from h have "threshold_index G t = Suc i"
      by (intro between) simp_all
    ultimately show "threshold_index G t = Suc i
          \<and> fst (tailProbability D G t) = fst (tailProbability D G (G ! Suc i))"
      by (simp add: tailProbability_def probability_gt_def Let_def)
  qed
  from k integral before after gap show ?thesis
    by (intro conjI)
qed

theorem tailProbability_from_first_grid_point_witness:
  "sorted [0, 1, 2 :: real] \<and> threshold_index [0, 1, 2] (1 / 2) = 1
   \<and> Suc 0 < length [0, 1, 2 :: real] \<and> [0, 1, 2 :: real] ! 0 < 1 / 2
   \<and> 1 / 2 \<le> [0, 1, 2 :: real] ! Suc 0
   \<and> fst (tailProbability [4, 1, 1] [0, 1, 2] (1 / 2)) = Inr 1
   \<and> fst (tailProbability [4, 1, 1] [0, 1, 2] (1 / 2))
       = fst (tailProbability [4, 1, 1] [0, 1, 2] ([0, 1, 2] ! Suc 0))"
proof -
  have g: "sorted [0, 1, 2 :: real]" by simp
  have h: "Suc 0 < length [0, 1, 2 :: real] \<and> [0, 1, 2 :: real] ! 0 < 1 / 2
     \<and> 1 / 2 \<le> [0, 1, 2 :: real] ! Suc 0" by simp
  note th = tailProbability_from_first_grid_point [OF g, of "1 / 2" "[4, 1, 1]"]
  note index = th [THEN conjunct1]
  note integral = th [THEN conjunct2, THEN conjunct1]
  note every = th [THEN conjunct2, THEN conjunct2, THEN conjunct2, THEN conjunct2]
  note gap = every [THEN spec, of 0, THEN mp, OF h]
  from index have k: "threshold_index [0, 1, 2] (1 / 2) = 1" by simp
  from integral have v: "fst (tailProbability [4, 1, 1] [0, 1, 2] (1 / 2)) = Inr 1"
    unfolding k by (simp add: trapezoid_def np_mul_def np_diff_def)
  note e = gap [THEN conjunct2]
  note h1 = h [THEN conjunct1] and h2 = h [THEN conjunct2, THEN conjunct1]
    and h3 = h [THEN conjunct2, THEN conjunct2]
  from g k h1 h2 h3 v e show ?thesis by (intro conjI)
qed

end
